theory Spec2Isabelle
  imports Main
begin

section \<open>Data model of gitutils.go\<close>

text \<open>
  Go byte slices and Go strings are both sequences of bytes; the conversion
  \<^verbatim>\<open>string(bytes)\<close> copies them unchanged. Both are modelled as \<^typ>\<open>string\<close>
  (a list of 8-bit characters). Indices that the source only ever counts upwards from
  a non-negative constant are natural numbers; the index returned by
  \<^verbatim>\<open>findFirstMatch\<close>, which can be \<open>-1\<close>, is an integer. The field
  \<^verbatim>\<open>Type_\<close> of \<^verbatim>\<open>Object\<close> is written \<open>Type\<close>: an Isabelle name cannot end with
  an underscore.

  The program has no error values. It fails either by a run-time panic of the Go
  runtime (a slice expression or an index expression out of range) or by
  \<^verbatim>\<open>log.Fatal\<close>, which ends the process. Both are results of the model.
\<close>

datatype error =
    SliceBoundsOutOfRange   \<comment> \<open>run-time panic of a slice expression \<^verbatim>\<open>s[lo:hi]\<close>\<close>
  | IndexOutOfRange         \<comment> \<open>run-time panic of an index expression \<^verbatim>\<open>s[i]\<close>\<close>
  | FatalReadError          \<comment> \<open>\<^verbatim>\<open>log.Fatal\<close> after a failed read or inflate\<close>
  | FatalJsonError          \<comment> \<open>\<^verbatim>\<open>log.Fatal\<close> after a failed \<^verbatim>\<open>json.Unmarshal\<close>\<close>

definition SPACE :: char where
  "SPACE = CHR 0x20"

definition NUL :: char where
  "NUL = CHR 0x00"

definition NEWLINE :: char where
  "NEWLINE = CHR 0x0A"

record Edge =
  Src :: string
  Dest :: string

record Object =
  Type :: string
  Size :: string
  Location :: string
  Name :: string
  Content :: string

record TreeEntry =
  Mode :: string
  Name :: string
  Hash :: string

record Commit =
  Tree :: string
  Parents :: "string list"

section \<open>Go primitives used by the source\<close>

text \<open>
  A slice expression \<^verbatim>\<open>s[lo:hi]\<close> panics unless \<open>0 \<le> lo \<le> hi \<le> cap s\<close>
  (\<open>len s\<close> for a string). The capacity of a byte slice is taken to be its length.
  In \<^verbatim>\<open>parseTree\<close> every upper bound is checked against the length by the
  loop condition, and in \<^verbatim>\<open>parseCommit\<close> the expression
  \<^verbatim>\<open>obj.Content[46:]\<close>, whose upper bound is the length itself, panics whenever
  \<^verbatim>\<open>obj.Content[5:45]\<close> could have read past the length; so a larger capacity
  changes no result of the model.
\<close>

definition slice :: "string \<Rightarrow> nat \<Rightarrow> nat \<Rightarrow> error + string" where
  "slice s lo hi =
     (if lo \<le> hi \<and> hi \<le> length s then Inr (take (hi - lo) (drop lo s))
      else Inl SliceBoundsOutOfRange)"

definition slice_from :: "string \<Rightarrow> nat \<Rightarrow> error + string" where
  "slice_from s lo = slice s lo (length s)"



subsection \<open>strings.TrimSpace\<close>

text \<open>
  \<^verbatim>\<open>strings.TrimSpace\<close> removes all leading and trailing white space, as defined
  by Unicode, from a UTF-8 string. The white-space code points are the six ASCII ones
  (tab, line feed, vertical tab, form feed, carriage return, space) and U+0085, U+00A0,
  U+1680, U+2000 to U+200A, U+2028, U+2029, U+202F, U+205F, U+3000. Each is listed below
  by its UTF-8 encoding. Bytes that are not valid UTF-8 decode to U+FFFD, which is not
  white space, so trimming stops at them.
\<close>

definition asciiSpace :: "char \<Rightarrow> bool" where
  "asciiSpace c =
     (c = CHR 0x09 \<or> c = CHR 0x0A \<or> c = CHR 0x0B \<or> c = CHR 0x0C \<or> c = CHR 0x0D \<or> c = CHR 0x20)"

definition spaceRunes :: "string list" where
  "spaceRunes =
     [[CHR 0x09], [CHR 0x0A], [CHR 0x0B], [CHR 0x0C], [CHR 0x0D], [CHR 0x20],
      [CHR 0xC2, CHR 0x85], [CHR 0xC2, CHR 0xA0],
      [CHR 0xE1, CHR 0x9A, CHR 0x80],
      [CHR 0xE2, CHR 0x80, CHR 0x80], [CHR 0xE2, CHR 0x80, CHR 0x81],
      [CHR 0xE2, CHR 0x80, CHR 0x82], [CHR 0xE2, CHR 0x80, CHR 0x83],
      [CHR 0xE2, CHR 0x80, CHR 0x84], [CHR 0xE2, CHR 0x80, CHR 0x85],
      [CHR 0xE2, CHR 0x80, CHR 0x86], [CHR 0xE2, CHR 0x80, CHR 0x87],
      [CHR 0xE2, CHR 0x80, CHR 0x88], [CHR 0xE2, CHR 0x80, CHR 0x89],
      [CHR 0xE2, CHR 0x80, CHR 0x8A],
      [CHR 0xE2, CHR 0x80, CHR 0xA8], [CHR 0xE2, CHR 0x80, CHR 0xA9],
      [CHR 0xE2, CHR 0x80, CHR 0xAF],
      [CHR 0xE2, CHR 0x81, CHR 0x9F],
      [CHR 0xE3, CHR 0x80, CHR 0x80]]"

text \<open>The number of bytes of the white-space rune a string starts (ends) with; 0 if none.\<close>

definition leadingSpaceWidth :: "string \<Rightarrow> nat" where
  "leadingSpaceWidth s =
     (case find (\<lambda>w. take (length w) s = w) spaceRunes of
        None \<Rightarrow> 0 | Some w \<Rightarrow> length w)"

definition trailingSpaceWidth :: "string \<Rightarrow> nat" where
  "trailingSpaceWidth s =
     (case find (\<lambda>w. take (length w) (rev s) = rev w) spaceRunes of
        None \<Rightarrow> 0 | Some w \<Rightarrow> length w)"


lemma leadingSpaceWidth_le: "leadingSpaceWidth s \<le> length s"
proof (cases "find (\<lambda>w. take (length w) s = w) spaceRunes")
  case None
  then show ?thesis by (simp add: leadingSpaceWidth_def)
next
  case (Some w)
  then have "take (length w) s = w"
    by (auto dest: find_Some_iff [THEN iffD1])
  then have "length (take (length w) s) = length w"
    by simp
  then have "length w \<le> length s"
    by simp
  with Some show ?thesis by (simp add: leadingSpaceWidth_def)
qed

lemma trailingSpaceWidth_le: "trailingSpaceWidth s \<le> length s"
proof (cases "find (\<lambda>w. take (length w) (rev s) = rev w) spaceRunes")
  case None
  then show ?thesis by (simp add: trailingSpaceWidth_def)
next
  case (Some w)
  then have "take (length w) (rev s) = rev w"
    by (auto dest: find_Some_iff [THEN iffD1])
  then have "length (take (length w) (rev s)) = length (rev w)"
    by simp
  then have "length w \<le> length s"
    by simp
  with Some show ?thesis by (simp add: trailingSpaceWidth_def)
qed

function trimLeft :: "string \<Rightarrow> string" where
  "trimLeft s =
     (if leadingSpaceWidth s = 0 then s else trimLeft (drop (leadingSpaceWidth s) s))"
  by pat_completeness auto
termination
proof (relation "measure length")
  show "wf (measure length)" by simp
next
  fix s :: string
  assume "leadingSpaceWidth s \<noteq> 0"
  moreover have "leadingSpaceWidth s \<le> length s" by (rule leadingSpaceWidth_le)
  ultimately show "(drop (leadingSpaceWidth s) s, s) \<in> measure length" by simp
qed

function trimRight :: "string \<Rightarrow> string" where
  "trimRight s =
     (if trailingSpaceWidth s = 0 then s
      else trimRight (take (length s - trailingSpaceWidth s) s))"
  by pat_completeness auto
termination
proof (relation "measure length")
  show "wf (measure length)" by simp
next
  fix s :: string
  assume "trailingSpaceWidth s \<noteq> 0"
  moreover have "trailingSpaceWidth s \<le> length s" by (rule trailingSpaceWidth_le)
  ultimately show "(take (length s - trailingSpaceWidth s) s, s) \<in> measure length" by simp
qed

definition TrimSpace :: "string \<Rightarrow> string" where
  "TrimSpace s = trimRight (trimLeft s)"

subsection \<open>hex.EncodeToString and strings.Split\<close>

definition hextable :: string where
  "hextable = ''0123456789abcdef''"

definition EncodeToString :: "string \<Rightarrow> string" where
  "EncodeToString src =
     concat (map (\<lambda>v. [hextable ! (of_char v div 16), hextable ! (of_char v mod 16)]) src)"

text \<open>\<^verbatim>\<open>strings.Split(s, "\n")\<close>: the substrings between the separators, never an empty list.\<close>

fun Split :: "string \<Rightarrow> char \<Rightarrow> string list" where
  "Split [] sep = [[]]"
| "Split (c # cs) sep =
     (if c = sep then [] # Split cs sep
      else (case Split cs sep of
              [] \<Rightarrow> [[c]]
            | l # ls \<Rightarrow> (c # l) # ls))"

section \<open>Header parser and object loader\<close>






section \<open>Tree decoder\<close>

text \<open>
  The inner loop of case 2 of \<^verbatim>\<open>parseTree\<close>:
  \<^verbatim>\<open>for obj.Content[i] != NUL && i < content_len-1 { i += 1 }\<close>.
  The index expression is evaluated first and panics when \<open>i\<close> is not below the length.
\<close>

function scanName :: "string \<Rightarrow> nat \<Rightarrow> error + nat" where
  "scanName content i =
     (if length content \<le> i then Inl IndexOutOfRange
      else if content ! i \<noteq> NUL \<and> i < length content - 1 then scanName content (i + 1)
      else Inr i)"
  by pat_completeness auto
termination
  by (relation "measure (\<lambda>(content, i). length content - i)") auto

text \<open>
  The variable \<^verbatim>\<open>entry_item\<close> of \<^verbatim>\<open>parseTree\<close> only takes the values 1, 2 and 3
  (it starts at 1, is incremented in cases 1 and 2 and reset to 1 in case 3).
\<close>

datatype entry_item =
    GetMode   \<comment> \<open>\<^verbatim>\<open>entry_item == 1\<close>: get the mode\<close>
  | GetName   \<comment> \<open>\<^verbatim>\<open>entry_item == 2\<close>: get the name (file or dir)\<close>
  | GetHash   \<comment> \<open>\<^verbatim>\<open>entry_item == 3\<close>: get the hash (object name)\<close>

definition parseTree_measure ::
  "string \<times> entry_item \<times> nat \<times> nat \<times> string \<times> string \<times> TreeEntry list \<Rightarrow> nat" where
  "parseTree_measure = (\<lambda>(content, item, start, stop, mode, name, entries).
     (case item of
        GetMode \<Rightarrow> 3 * (length content + 30 - stop) + 1
      | GetName \<Rightarrow> 3 * (length content + 30 - start)
      | GetHash \<Rightarrow> 3 * (length content + 30 - (stop + 6)) + 2))"

lemma scanName_bounds: "scanName content i = Inr j \<Longrightarrow> i \<le> j \<and> j < length content"
proof (induction content i rule: scanName.induct)
  case (1 content i)
  show ?case
  proof (cases "length content \<le> i")
    case True
    with "1.prems" show ?thesis by simp
  next
    case False
    show ?thesis
    proof (cases "content ! i \<noteq> NUL \<and> i < length content - 1")
      case True
      with False "1.prems" have "scanName content (i + 1) = Inr j" by simp
      with "1.IH" False True have "i + 1 \<le> j \<and> j < length content" by blast
      then show ?thesis by simp
    next
      case stop: False
      with False "1.prems" have "j = i" by auto
      with False show ?thesis by simp
    qed
  qed
qed

function parseTree_loop ::
  "string \<Rightarrow> entry_item \<Rightarrow> nat \<Rightarrow> nat \<Rightarrow> string \<Rightarrow> string \<Rightarrow> TreeEntry list
     \<Rightarrow> error + TreeEntry list" where
  "parseTree_loop content item start stop mode name entries =
     (if stop \<le> length content then
        (case item of
           GetMode \<Rightarrow>
             (case slice content start stop of
                Inl e \<Rightarrow> Inl e
              | Inr bytes \<Rightarrow>
                  parseTree_loop content GetName stop stop (TrimSpace bytes) name entries)
         | GetName \<Rightarrow>
             (case scanName content start of
                Inl e \<Rightarrow> Inl e
              | Inr i \<Rightarrow>
                  (case slice content start i of
                     Inl e \<Rightarrow> Inl e
                   | Inr bytes \<Rightarrow>
                       parseTree_loop content GetHash (i + 1) (i + 1 + 20) mode
                         (TrimSpace bytes) entries))
         | GetHash \<Rightarrow>
             (case slice content start stop of
                Inl e \<Rightarrow> Inl e
              | Inr bytes \<Rightarrow>
                  parseTree_loop content GetMode stop (stop + 6) mode name
                    (entries @ [\<lparr>Mode = mode, Name = name,
                                 Hash = TrimSpace (EncodeToString bytes)\<rparr>])))
      else Inr entries)"
  by pat_completeness auto
termination
proof (relation "measure parseTree_measure")
  show "wf (measure parseTree_measure)" by simp
next
  fix content :: string and item start stop and mode name :: string
    and entries :: "TreeEntry list" and bytes :: string
  assume "stop \<le> length content" "item = GetMode"
  then show "((content, GetName, stop, stop, TrimSpace bytes, name, entries),
              (content, item, start, stop, mode, name, entries)) \<in> measure parseTree_measure"
    by (simp add: parseTree_measure_def)
next
  fix content :: string and item start stop and mode name :: string
    and entries :: "TreeEntry list" and i :: nat and bytes :: string
  assume "stop \<le> length content" "item = GetName" "scanName content start = Inr i"
  then have "start \<le> i \<and> i < length content"
    by (simp only: scanName_bounds)
  then have "3 * (length content + 30 - (i + 1 + 20 + 6)) + 2 < 3 * (length content + 30 - start)"
    by arith
  then show "((content, GetHash, i + 1, i + 1 + 20, mode, TrimSpace bytes, entries),
              (content, item, start, stop, mode, name, entries)) \<in> measure parseTree_measure"
    by (simp only: parseTree_measure_def in_measure prod.case entry_item.case \<open>item = GetName\<close>)
next
  fix content :: string and item start stop and mode name :: string
    and entries :: "TreeEntry list" and bytes :: string
  assume "stop \<le> length content" "item = GetHash"
  then show "((content, GetMode, stop, stop + 6, mode, name,
               entries @ [\<lparr>Mode = mode, Name = name, Hash = TrimSpace (EncodeToString bytes)\<rparr>]),
              (content, item, start, stop, mode, name, entries)) \<in> measure parseTree_measure"
    by (simp add: parseTree_measure_def)
qed

declare trimLeft.simps [simp del] trimRight.simps [simp del]
  scanName.simps [simp del] parseTree_loop.simps [simp del]

definition parseTree :: "Object \<Rightarrow> error + TreeEntry list" where
  "parseTree obj = parseTree_loop (Content obj) GetMode 0 6 [] [] []"

section \<open>Commit decoder\<close>

text \<open>The \<^verbatim>\<open>for _, line := range rest_of_content\<close> loop of \<^verbatim>\<open>parseCommit\<close>.\<close>

fun parseCommit_lines :: "string list \<Rightarrow> string list \<Rightarrow> error + string list" where
  "parseCommit_lines [] parents = Inr parents"
| "parseCommit_lines (line # rest) parents =
     (case slice line 0 6 of
        Inl e \<Rightarrow> Inl e
      | Inr label \<Rightarrow>
          if label = ''parent'' then
            (case slice line 7 47 of
               Inl e \<Rightarrow> Inl e
             | Inr p \<Rightarrow> parseCommit_lines rest (parents @ [p]))
          else Inr parents)"

definition parseCommit :: "Object \<Rightarrow> error + Commit" where
  "parseCommit obj =
     (case slice (Content obj) 5 45 of
        Inl e \<Rightarrow> Inl e
      | Inr tree_hash \<Rightarrow>
          (case slice_from (Content obj) 46 of
             Inl e \<Rightarrow> Inl e
           | Inr rest \<Rightarrow>
               (case parseCommit_lines (Split rest NEWLINE) [] of
                  Inl e \<Rightarrow> Inl e
                | Inr parents \<Rightarrow> Inr \<lparr>Tree = tree_hash, Parents = parents\<rparr>)))"

section \<open>JSON views and the graph builder\<close>

text \<open>
  \<^verbatim>\<open>Object.toJson\<close> returns the bytes written by \<^verbatim>\<open>json.Marshal\<close>, or an empty
  byte slice for a type it does not know. The model keeps the value that was marshalled
  instead of its text. \<^verbatim>\<open>json.Marshal\<close> cannot fail on these values (strings, byte
  slices and slices of structs of strings), so the \<^verbatim>\<open>log.Fatal\<close> calls behind it are
  unreachable. \<^verbatim>\<open>json.Unmarshal\<close> into a map accepts every JSON object and rejects
  the empty input with \<^verbatim>\<open>unexpected end of JSON input\<close>.
\<close>

datatype json_bytes =
    TreeJson "TreeEntry list"   \<comment> \<open>\<^verbatim>\<open>{"entries": [...]}\<close>\<close>
  | CommitJson Commit           \<comment> \<open>\<^verbatim>\<open>{"tree": ..., "parents": [...]}\<close>\<close>
  | BlobJson Object             \<comment> \<open>the object itself, with its content\<close>
  | EmptyBytes                  \<comment> \<open>\<^verbatim>\<open>make([]byte, 0)\<close>\<close>

definition Object_toJson :: "Object \<Rightarrow> error + json_bytes" where
  "Object_toJson obj =
     (if Type obj = ''tree'' then
        (case parseTree obj of Inl e \<Rightarrow> Inl e | Inr entries \<Rightarrow> Inr (TreeJson entries))
      else if Type obj = ''commit'' then
        (case parseCommit obj of Inl e \<Rightarrow> Inl e | Inr commit \<Rightarrow> Inr (CommitJson commit))
      else if Type obj = ''blob'' then Inr (BlobJson obj)
      else Inr EmptyBytes)"

definition Unmarshal :: "json_bytes \<Rightarrow> json_bytes option" where
  "Unmarshal data = (if data = EmptyBytes then None else Some data)"

record Node =
  node_name :: string
  node_type :: string
  node_object :: json_bytes

text \<open>
  A Go map is ranged over in an order the runtime chooses. The field \<open>objects\<close> is the
  list of the map's values in the order of that one traversal; the keys are the
  objects' names.
\<close>

record Repo =
  location :: string
  objects :: "Object list"

text \<open>
  The \<^verbatim>\<open>switch obj.Type_\<close> of \<^verbatim>\<open>Repo.toJson\<close>: the edges it appends, one at a
  time. \<^verbatim>\<open>Repo.toSQLite\<close> has the same switch and writes each edge as a row.
\<close>

definition appendEdges :: "Object \<Rightarrow> Edge list \<Rightarrow> error + Edge list" where
  "appendEdges obj edges =
     (if Type obj = ''commit'' then
        (case parseCommit obj of
           Inl e \<Rightarrow> Inl e
         | Inr commit \<Rightarrow>
             Inr (foldl (\<lambda>edges p. edges @ [\<lparr>Src = Object.Name obj, Dest = p\<rparr>])
                    edges (Parents commit)
                  @ [\<lparr>Src = Object.Name obj, Dest = Tree commit\<rparr>]))
      else if Type obj = ''tree'' then
        (case parseTree obj of
           Inl e \<Rightarrow> Inl e
         | Inr entries \<Rightarrow>
             Inr (foldl (\<lambda>edges entry. edges @ [\<lparr>Src = Object.Name obj, Dest = Hash entry\<rparr>])
                    edges entries))
      else Inr edges)"

fun toJson_range :: "Object list \<Rightarrow> Node list \<Rightarrow> Edge list \<Rightarrow> error + (Node list \<times> Edge list)" where
  "toJson_range [] nodes edges = Inr (nodes, edges)"
| "toJson_range (obj # rest) nodes edges =
     (case Object_toJson obj of
        Inl e \<Rightarrow> Inl e
      | Inr bytes \<Rightarrow>
          (case Unmarshal bytes of
             None \<Rightarrow> Inl FatalJsonError
           | Some objMap \<Rightarrow>
               (case appendEdges obj edges of
                  Inl e \<Rightarrow> Inl e
                | Inr edges' \<Rightarrow>
                    toJson_range rest
                      (nodes @ [\<lparr>node_name = Object.Name obj, node_type = Type obj,
                                 node_object = objMap\<rparr>])
                      edges')))"

definition Repo_toJson :: "Repo \<Rightarrow> error + (Node list \<times> Edge list)" where
  "Repo_toJson r = toJson_range (objects r) [] []"

text \<open>
  \<^verbatim>\<open>Repo.toSQLite\<close> walks the same objects and writes one row per object and one row
  per edge. The rows are the result of the model; the database is assumed to accept
  every statement.
\<close>

fun toSQLite_range ::
  "Object list \<Rightarrow> (string \<times> string \<times> json_bytes) list \<Rightarrow> Edge list
     \<Rightarrow> error + ((string \<times> string \<times> json_bytes) list \<times> Edge list)" where
  "toSQLite_range [] rows edges = Inr (rows, edges)"
| "toSQLite_range (obj # rest) rows edges =
     (case Object_toJson obj of
        Inl e \<Rightarrow> Inl e
      | Inr bytes \<Rightarrow>
          (case appendEdges obj edges of
             Inl e \<Rightarrow> Inl e
           | Inr edges' \<Rightarrow>
               toSQLite_range rest (rows @ [(Object.Name obj, Type obj, bytes)]) edges'))"

definition Repo_toSQLite ::
  "Repo \<Rightarrow> error + ((string \<times> string \<times> json_bytes) list \<times> Edge list)" where
  "Repo_toSQLite r = toSQLite_range (objects r) [] []"

section \<open>The on-disk grammar of trees and commits\<close>

text \<open>
  The definitions of this section are not in the source. They state the format the
  decoders read, so that the decoders can be compared with it.

  A tree body is a concatenation of entries, each laid out as the mode, one space, the
  name, one zero byte and 20 raw hash bytes. An entry is well formed when the mode holds
  no space, the name holds no zero byte and the hash has 20 bytes; its decoded form is
  the mode and the name as they are and the hash in hexadecimal.
\<close>

record RawEntry =
  raw_mode :: string
  raw_name :: string
  raw_hash :: string

definition encodeEntry :: "RawEntry \<Rightarrow> string" where
  "encodeEntry e = raw_mode e @ [SPACE] @ raw_name e @ [NUL] @ raw_hash e"

definition encodeTree :: "RawEntry list \<Rightarrow> string" where
  "encodeTree es = concat (map encodeEntry es)"

definition validEntry :: "RawEntry \<Rightarrow> bool" where
  "validEntry e =
     (SPACE \<notin> set (raw_mode e) \<and> NUL \<notin> set (raw_name e) \<and> length (raw_hash e) = 20)"

definition decoded :: "RawEntry \<Rightarrow> TreeEntry" where
  "decoded e =
     \<lparr>Mode = raw_mode e, Name = raw_name e, Hash = EncodeToString (raw_hash e)\<rparr>"

text \<open>
  The entries \<^verbatim>\<open>parseTree\<close> is written for: a mode of 5 or 6 ASCII bytes that are
  not white space (git writes \<^verbatim>\<open>40000\<close>, \<^verbatim>\<open>100644\<close>, \<^verbatim>\<open>100755\<close>, \<^verbatim>\<open>120000\<close>
  and \<^verbatim>\<open>160000\<close>) and a name that trimming leaves unchanged.
\<close>

definition plainByte :: "char \<Rightarrow> bool" where
  "plainByte c = (\<not> asciiSpace c \<and> (of_char c :: nat) < 128)"

definition gitEntry :: "RawEntry \<Rightarrow> bool" where
  "gitEntry e =
     ((length (raw_mode e) = 5 \<or> length (raw_mode e) = 6) \<and>
      list_all plainByte (raw_mode e) \<and>
      NUL \<notin> set (raw_name e) \<and> TrimSpace (raw_name e) = raw_name e \<and>
      length (raw_hash e) = 20)"

text \<open>
  Re-encoding a decoded entry: mode, space, name, zero byte and the 20 bytes the
  hexadecimal hash stands for.
\<close>

definition hexval :: "char \<Rightarrow> nat" where
  "hexval c = length (takeWhile (\<lambda>x. x \<noteq> c) hextable)"

fun DecodeString :: "string \<Rightarrow> string" where
  "DecodeString (a # b # rest) = char_of (hexval a * 16 + hexval b) # DecodeString rest"
| "DecodeString rest = []"

definition reencodeEntry :: "TreeEntry \<Rightarrow> string" where
  "reencodeEntry t =
     Mode t @ [SPACE] @ TreeEntry.Name t @ [NUL] @ DecodeString (Hash t)"

definition reencodeTree :: "TreeEntry list \<Rightarrow> string" where
  "reencodeTree ts = concat (map reencodeEntry ts)"

text \<open>
  A commit body: the line \<^verbatim>\<open>tree <id>\<close>, one line \<^verbatim>\<open>parent <id>\<close> per parent, then
  the rest (in git the \<^verbatim>\<open>author\<close> line and what follows it). An object identifier is
  40 lowercase hexadecimal characters.
\<close>

definition objectId :: "string \<Rightarrow> bool" where
  "objectId s = (length s = 40 \<and> list_all (\<lambda>c. c \<in> set hextable) s)"

definition parentLine :: "string \<Rightarrow> string" where
  "parentLine p = ''parent '' @ p @ [NEWLINE]"

definition commitBody :: "string \<Rightarrow> string list \<Rightarrow> string \<Rightarrow> string" where
  "commitBody t ps rest = ''tree '' @ t @ [NEWLINE] @ concat (map parentLine ps) @ rest"

definition firstLine :: "string \<Rightarrow> string" where
  "firstLine s = takeWhile (\<lambda>c. c \<noteq> NEWLINE) s"

text \<open>The edges the graph has for one object, given what its decoder returns.\<close>

definition commitEdges :: "string \<Rightarrow> Commit \<Rightarrow> Edge list" where
  "commitEdges self c =
     map (\<lambda>p. \<lparr>Src = self, Dest = p\<rparr>) (Parents c) @ [\<lparr>Src = self, Dest = Tree c\<rparr>]"

definition treeEdges :: "string \<Rightarrow> TreeEntry list \<Rightarrow> Edge list" where
  "treeEdges self entries = map (\<lambda>entry. \<lparr>Src = self, Dest = Hash entry\<rparr>) entries"




text \<open>
  The edges of one object: for a commit the parents in declaration order, then the tree;
  for a tree one edge per entry in entry order; none for any other type (and none where
  the decoder fails).
\<close>

definition objectEdges :: "Object \<Rightarrow> Edge list" where
  "objectEdges obj =
     (if Type obj = ''commit'' then
        (case parseCommit obj of Inl e \<Rightarrow> [] | Inr c \<Rightarrow> commitEdges (Object.Name obj) c)
      else if Type obj = ''tree'' then
        (case parseTree obj of Inl e \<Rightarrow> [] | Inr entries \<Rightarrow> treeEdges (Object.Name obj) entries)
      else [])"

section \<open>Example objects\<close>

definition mkObject :: "string \<Rightarrow> string \<Rightarrow> string \<Rightarrow> Object" where
  "mkObject type' name content =
     \<lparr>Type = type', Size = [], Location = [], Name = name, Content = content\<rparr>"

definition id1 :: string where
  "id1 = ''0123456789abcdef0123456789abcdef01234567''"

definition id2 :: string where
  "id2 = ''89abcdef0123456789abcdef0123456789abcdef''"

definition id3 :: string where
  "id3 = ''00112233445566778899aabbccddeeff00112233''"

definition raw1 :: string where
  "raw1 = DecodeString id1"

definition raw2 :: string where
  "raw2 = DecodeString id2"

definition tagObject :: Object where
  "tagObject = mkObject ''tag'' id3 (''object '' @ id1 @ [NEWLINE] @ ''type commit'' @ [NEWLINE])"

definition blobObject :: Object where
  "blobObject = mkObject ''blob'' id2 ''hello''"

definition entryA :: RawEntry where
  "entryA = \<lparr>raw_mode = ''100644'', raw_name = ''a.txt'', raw_hash = raw1\<rparr>"

definition entryB :: RawEntry where
  "entryB = \<lparr>raw_mode = ''40000'', raw_name = ''b'', raw_hash = raw2\<rparr>"

definition entryShortMode :: RawEntry where
  "entryShortMode = \<lparr>raw_mode = ''644'', raw_name = ''ab.txt'', raw_hash = raw1\<rparr>"

definition entrySpaceName :: RawEntry where
  "entrySpaceName = \<lparr>raw_mode = ''100644'', raw_name = '' a'', raw_hash = raw1\<rparr>"

definition treeAB :: Object where
  "treeAB = mkObject ''tree'' id3 (encodeTree [entryA, entryB])"

definition treeShortMode :: Object where
  "treeShortMode = mkObject ''tree'' id3 (encodeTree [entryShortMode])"

definition treeSpaceName :: Object where
  "treeSpaceName = mkObject ''tree'' id3 (encodeTree [entrySpaceName])"

text \<open>The tree of \<open>entryA\<close> and \<open>entryB\<close> with the last byte of the second hash missing.\<close>

definition treeTruncated :: Object where
  "treeTruncated = mkObject ''tree'' id3 (encodeTree [entryA] @ take 27 (encodeEntry entryB))"

definition idC :: string where
  "idC = ''c0ffee00c0ffee00c0ffee00c0ffee00c0ffee00''"

definition idP1 :: string where
  "idP1 = ''aaaaaaaaaaaaaaaaaaaaaaaaaaaaaaaaaaaaaaaa''"

definition idP2 :: string where
  "idP2 = ''bbbbbbbbbbbbbbbbbbbbbbbbbbbbbbbbbbbbbbbb''"

definition authorRest :: string where
  "authorRest =
     ''author A U Thor <a@example.org> 0 +0000'' @ [NEWLINE] @ [NEWLINE] @ ''msg'' @ [NEWLINE]"

definition commitTwoParents :: Object where
  "commitTwoParents = mkObject ''commit'' idC (commitBody id3 [idP1, idP2] authorRest)"

text \<open>A commit whose body ends after the tree line and three more bytes.\<close>

definition shortCommit :: Object where
  "shortCommit = mkObject ''commit'' idC (commitBody id3 [] ''abc'')"

text \<open>A commit whose second parent line is cut after four characters of the identifier.\<close>

definition commitShortParent :: Object where
  "commitShortParent = mkObject ''commit'' idC (commitBody id3 [idP1] ''parent 0123'')"

text \<open>A tree whose content is cut after the six bytes of a mode.\<close>

definition treeSixBytes :: Object where
  "treeSixBytes = mkObject ''tree'' id3 ''100644''"

definition exampleRepo :: Repo where
  "exampleRepo = \<lparr>location = ''repo'', objects = [commitTwoParents, blobObject, treeAB]\<rparr>"

definition exampleEdges :: "Edge list" where
  "exampleEdges =
     [\<lparr>Src = idC, Dest = idP1\<rparr>, \<lparr>Src = idC, Dest = idP2\<rparr>, \<lparr>Src = idC, Dest = id3\<rparr>,
      \<lparr>Src = id3, Dest = id1\<rparr>, \<lparr>Src = id3, Dest = id2\<rparr>]"

definition brokenCommitRepo :: Repo where
  "brokenCommitRepo = \<lparr>location = ''repo'', objects = [blobObject, shortCommit, treeAB]\<rparr>"

definition brokenTreeRepo :: Repo where
  "brokenTreeRepo = \<lparr>location = ''repo'', objects = [blobObject, treeSixBytes]\<rparr>"

section \<open>Facts about the primitives\<close>

subsection \<open>Trimming\<close>

lemma spaceRunes_ends:
  "list_all (\<lambda>w. w \<noteq> [] \<and> \<not> plainByte (hd w) \<and> \<not> plainByte (last w)) spaceRunes"
  by (simp add: spaceRunes_def plainByte_def asciiSpace_def)

lemma spaceRune_ends:
  "w \<in> set spaceRunes \<Longrightarrow> w \<noteq> [] \<and> \<not> plainByte (hd w) \<and> \<not> plainByte (last w)"
  using spaceRunes_ends by (simp add: list_all_iff)

lemma plain_not_leading:
  assumes "plainByte c"
  shows "leadingSpaceWidth (c # cs) = 0"
proof (cases "find (\<lambda>w. take (length w) (c # cs) = w) spaceRunes")
  case None
  then show ?thesis by (simp add: leadingSpaceWidth_def)
next
  case (Some w)
  then have w: "w \<in> set spaceRunes" and t: "take (length w) (c # cs) = w"
    by (auto simp: find_Some_iff)
  from spaceRune_ends [OF w] have "w \<noteq> []" "\<not> plainByte (hd w)" by simp_all
  moreover from \<open>w \<noteq> []\<close> t have "hd w = c" by (cases w) auto
  ultimately show ?thesis using assms by simp
qed

lemma plain_not_trailing:
  assumes "plainByte c"
  shows "trailingSpaceWidth (cs @ [c]) = 0"
proof (cases "find (\<lambda>w. take (length w) (rev (cs @ [c])) = rev w) spaceRunes")
  case None
  then show ?thesis by (simp add: trailingSpaceWidth_def)
next
  case (Some w)
  then have w: "w \<in> set spaceRunes" and t: "take (length w) (rev (cs @ [c])) = rev w"
    by (auto simp: find_Some_iff)
  from spaceRune_ends [OF w] have "w \<noteq> []" "\<not> plainByte (last w)" by simp_all
  moreover from \<open>w \<noteq> []\<close> t have "hd (rev w) = c" by (cases "rev w") auto
  then have "last w = c" using \<open>w \<noteq> []\<close> by (simp add: hd_rev)
  ultimately show ?thesis using assms by simp
qed

lemma leading_SPACE: "leadingSpaceWidth (SPACE # s) = 1"
  by (simp add: leadingSpaceWidth_def spaceRunes_def SPACE_def)

lemma trailing_SPACE: "trailingSpaceWidth (s @ [SPACE]) = 1"
  by (simp add: trailingSpaceWidth_def spaceRunes_def SPACE_def)

lemma TrimSpace_Nil: "TrimSpace [] = []"
proof -
  have "leadingSpaceWidth [] = 0" using leadingSpaceWidth_le [of "[]"] by simp
  moreover have "trailingSpaceWidth [] = 0" using trailingSpaceWidth_le [of "[]"] by simp
  ultimately show ?thesis by (simp add: TrimSpace_def trimLeft.simps trimRight.simps)
qed

lemma TrimSpace_plain:
  assumes "s \<noteq> []" "plainByte (hd s)" "plainByte (last s)"
  shows "TrimSpace s = s"
proof -
  from assms obtain c cs where s: "s = c # cs" and c: "plainByte c"
    by (cases s) auto
  from assms have s': "s = butlast s @ [last s]" by simp
  have "leadingSpaceWidth s = 0" using s c by (simp add: plain_not_leading)
  then have "trimLeft s = s" by (subst trimLeft.simps) simp
  moreover have "trailingSpaceWidth s = 0"
    using plain_not_trailing [OF assms(3), of "butlast s"] s' by simp
  then have "trimRight s = s" by (subst trimRight.simps) simp
  ultimately show ?thesis by (simp add: TrimSpace_def)
qed

lemma TrimSpace_SPACE_Cons: "TrimSpace (SPACE # s) = TrimSpace s"
proof -
  have "trimLeft (SPACE # s) = trimLeft s"
    by (subst trimLeft.simps) (simp add: leading_SPACE)
  then show ?thesis by (simp add: TrimSpace_def)
qed

lemma TrimSpace_plain_SPACE:
  assumes "s \<noteq> []" "plainByte (hd s)" "plainByte (last s)"
  shows "TrimSpace (s @ [SPACE]) = s"
proof -
  from assms obtain c cs where s: "s = c # cs" and c: "plainByte c"
    by (cases s) auto
  from assms have s': "s = butlast s @ [last s]" by simp
  have "leadingSpaceWidth (s @ [SPACE]) = 0" using s c by (simp add: plain_not_leading)
  then have "trimLeft (s @ [SPACE]) = s @ [SPACE]" by (subst trimLeft.simps) simp
  moreover have "trimRight (s @ [SPACE]) = trimRight s"
    by (subst trimRight.simps) (simp add: trailing_SPACE)
  moreover have "trailingSpaceWidth s = 0"
    using plain_not_trailing [OF assms(3), of "butlast s"] s' by simp
  then have "trimRight s = s" by (subst trimRight.simps) simp
  ultimately show ?thesis by (simp add: TrimSpace_def)
qed

subsection \<open>Hexadecimal encoding\<close>

lemma of_char_div16: "(of_char v :: nat) div 16 < 16"
  using nat_of_char_less_256 [of v] by arith

lemma hextable_plain: "list_all plainByte hextable"
  by (simp add: hextable_def plainByte_def asciiSpace_def)

lemma hexdigit_plain: "n < 16 \<Longrightarrow> plainByte (hextable ! n)"
  using hextable_plain by (simp add: list_all_length hextable_def)

lemma hexval_hextable: "n < 16 \<Longrightarrow> hexval (hextable ! n) = n"
proof -
  have "list_all (\<lambda>n. hexval (hextable ! n) = n) [0..<16]"
    by (simp add: upt_rec hexval_def hextable_def)
  then show "n < 16 \<Longrightarrow> hexval (hextable ! n) = n"
    by (simp add: list_all_iff)
qed

lemma EncodeToString_Cons:
  "EncodeToString (v # src) =
     hextable ! (of_char v div 16) # hextable ! (of_char v mod 16) # EncodeToString src"
  by (simp add: EncodeToString_def)

lemma EncodeToString_plain: "list_all plainByte (EncodeToString src)"
  by (induction src) (simp_all add: EncodeToString_Cons hexdigit_plain of_char_div16, simp add: EncodeToString_def)

lemma length_EncodeToString: "length (EncodeToString src) = 2 * length src"
  by (induction src) (simp_all add: EncodeToString_Cons, simp add: EncodeToString_def)

lemma TrimSpace_EncodeToString: "TrimSpace (EncodeToString src) = EncodeToString src"
proof (cases "EncodeToString src = []")
  case True
  then show ?thesis by (simp add: TrimSpace_Nil)
next
  case False
  with EncodeToString_plain [of src]
  have "plainByte (hd (EncodeToString src))" "plainByte (last (EncodeToString src))"
    by (simp_all add: list_all_iff)
  with False show ?thesis by (rule TrimSpace_plain)
qed

lemma DecodeString_EncodeToString: "DecodeString (EncodeToString src) = src"
proof (induction src)
  case Nil
  show ?case by (simp add: EncodeToString_def)
next
  case (Cons v src)
  have "hexval (hextable ! (of_char v div 16)) * 16 + hexval (hextable ! (of_char v mod 16))
          = (of_char v :: nat)"
    by (simp add: hexval_hextable of_char_div16)
  with Cons show ?case by (simp add: EncodeToString_Cons)
qed

subsection \<open>The tree decoder, entry by entry\<close>

lemma scanName_closed:
  "i < length content \<Longrightarrow>
   scanName content i =
     Inr (min (i + length (takeWhile (\<lambda>b. b \<noteq> NUL) (drop i content))) (length content - 1))"
proof (induction content i rule: scanName.induct)
  case (1 content i)
  from "1.prems" have d: "drop i content = content ! i # drop (Suc i) content"
    by (simp add: Cons_nth_drop_Suc)
  show ?case
  proof (cases "content ! i \<noteq> NUL \<and> i < length content - 1")
    case True
    then have "scanName content i = scanName content (i + 1)"
      using "1.prems" by (subst scanName.simps) simp
    also have "\<dots> = Inr (min (i + 1 + length (takeWhile (\<lambda>b. b \<noteq> NUL) (drop (i + 1) content)))
                            (length content - 1))"
    proof -
      from True have "i + 1 < length content" by arith
      with "1.IH" True "1.prems" show ?thesis by simp
    qed
    finally show ?thesis using True d by simp
  next
    case False
    then have "scanName content i = Inr i"
      using "1.prems" by (subst scanName.simps) auto
    moreover from False "1.prems" d
    have "min (i + length (takeWhile (\<lambda>b. b \<noteq> NUL) (drop i content))) (length content - 1) = i"
      by (cases "content ! i = NUL") auto
    ultimately show ?thesis by simp
  qed
qed

lemma length_encodeEntry:
  "length (encodeEntry e) = length (raw_mode e) + length (raw_name e) + length (raw_hash e) + 2"
  by (simp add: encodeEntry_def)

lemma gitEntry_mode_ends:
  assumes "gitEntry e"
  shows "raw_mode e \<noteq> [] \<and> plainByte (hd (raw_mode e)) \<and> plainByte (last (raw_mode e))"
proof -
  from assms have ne: "raw_mode e \<noteq> []" and all: "list_all plainByte (raw_mode e)"
    by (auto simp: gitEntry_def)
  from ne all show ?thesis by (simp add: list_all_iff)
qed

lemma SPACE_neq_NUL: "SPACE \<noteq> NUL"
  by (simp add: SPACE_def NUL_def)

lemma takeWhile_to_NUL:
  "NUL \<notin> set n \<Longrightarrow> takeWhile (\<lambda>b. b \<noteq> NUL) (n @ NUL # rest) = n"
  by (induction n) auto

text \<open>One entry: the three states of the loop over a well-formed entry.\<close>

lemma parseTree_loop_entry:
  assumes g: "gitEntry e"
  shows "parseTree_loop (pre @ encodeEntry e @ post) GetMode (length pre) (length pre + 6)
           mode name entries =
         parseTree_loop (pre @ encodeEntry e @ post) GetMode
           (length pre + length (encodeEntry e)) (length pre + length (encodeEntry e) + 6)
           (raw_mode e) (raw_name e) (entries @ [decoded e])"
proof -
  define m n h where "m = raw_mode e" and "n = raw_name e" and "h = raw_hash e"
  define c where "c = pre @ encodeEntry e @ post"
  define s where "s = length pre"
  define i where "i = s + length m + 1 + length n"
  have enc: "encodeEntry e = m @ SPACE # n @ NUL # h"
    by (simp add: encodeEntry_def m_def n_def h_def)
  from g have lm: "length m = 5 \<or> length m = 6" and nul: "NUL \<notin> set n"
    and tn: "TrimSpace n = n" and lh: "length h = 20"
    by (simp_all add: gitEntry_def m_def n_def h_def)
  from gitEntry_mode_ends [OF g]
  have mp: "m \<noteq> []" "plainByte (hd m)" "plainByte (last m)" by (simp_all add: m_def)
  have lc: "length c = s + length m + length n + 22 + length post"
    by (simp add: c_def enc lh s_def)
  have dr: "drop s c = m @ SPACE # n @ NUL # h @ post"
    by (simp add: c_def s_def enc)
  have A: "TrimSpace (take 6 (drop s c)) = m"
    using lm
  proof
    assume "length m = 5"
    then have "take 6 (drop s c) = m @ [SPACE]" by (simp add: dr)
    then show ?thesis using mp by (simp add: TrimSpace_plain_SPACE)
  next
    assume "length m = 6"
    then have "take 6 (drop s c) = m" by (simp add: dr)
    then show ?thesis using mp by (simp add: TrimSpace_plain)
  qed
  define w where "w = drop 6 (m @ [SPACE])"
  have w: "w = [] \<or> w = [SPACE]"
    using lm by (auto simp: w_def)
  have lw: "length w = length m + 1 - 6"
    by (simp add: w_def)
  have "drop (s + 6) c = drop 6 (drop s c)"
    by (simp add: add.commute)
  also have "\<dots> = drop 6 ((m @ [SPACE]) @ n @ NUL # h @ post)"
    by (simp add: dr)
  also have "\<dots> = w @ n @ NUL # h @ post"
    unfolding w_def using lm by (subst drop_append) auto
  finally have dr6: "drop (s + 6) c = w @ n @ NUL # h @ post" .
  have "NUL \<notin> set (w @ n)"
    using w nul SPACE_neq_NUL by auto
  then have "takeWhile (\<lambda>b. b \<noteq> NUL) ((w @ n) @ NUL # h @ post) = w @ n"
    by (rule takeWhile_to_NUL)
  then have tw: "takeWhile (\<lambda>b. b \<noteq> NUL) (drop (s + 6) c) = w @ n"
    by (simp add: dr6)
  have B: "scanName c (s + 6) = Inr i"
    using lm lc by (subst scanName_closed) (auto simp: i_def tw lw)
  have "take (i - (s + 6)) (drop (s + 6) c) = w @ n"
    using lm by (auto simp: dr6 i_def lw)
  then have C: "TrimSpace (take (i - (s + 6)) (drop (s + 6) c)) = n"
    using w tn by (auto simp: TrimSpace_SPACE_Cons)
  have "drop (i + 1) c = drop (length m + 1 + length n + 1) (drop s c)"
    by (simp add: i_def add.commute add.left_commute)
  also have "\<dots> = h @ post" by (simp add: dr)
  finally have D: "take 20 (drop (Suc i) c) = h" by (simp add: lh)
  have bounds: "s + 6 \<le> length c" "s + 6 \<le> i" "i \<le> length c" "i + 1 + 20 \<le> length c"
    using lm lc by (auto simp: i_def)
  have "parseTree_loop c GetMode s (s + 6) mode name entries =
        parseTree_loop c GetName (s + 6) (s + 6) m name entries"
    using bounds by (subst parseTree_loop.simps) (simp add: slice_def A)
  also have "\<dots> = parseTree_loop c GetHash (i + 1) (i + 1 + 20) m n entries"
    using bounds by (subst parseTree_loop.simps) (simp add: slice_def B C)
  also have "\<dots> = parseTree_loop c GetMode (i + 1 + 20) (i + 1 + 20 + 6) m n
                     (entries @ [\<lparr>Mode = m, Name = n, Hash = EncodeToString h\<rparr>])"
    using bounds by (subst parseTree_loop.simps) (simp add: slice_def D TrimSpace_EncodeToString)
  finally have "parseTree_loop c GetMode s (s + 6) mode name entries =
      parseTree_loop c GetMode (i + 1 + 20) (i + 1 + 20 + 6) m n
        (entries @ [\<lparr>Mode = m, Name = n, Hash = EncodeToString h\<rparr>])" .
  moreover have "length pre + length (encodeEntry e) = i + 1 + 20"
    by (simp add: enc i_def lh s_def)
  moreover have "decoded e = \<lparr>Mode = m, Name = n, Hash = EncodeToString h\<rparr>"
    by (simp add: decoded_def m_def n_def h_def)
  ultimately show ?thesis
    by (simp only: c_def s_def m_def n_def)
qed

lemma encodeTree_Cons: "encodeTree (e # es) = encodeEntry e @ encodeTree es"
  by (simp add: encodeTree_def)

lemma parseTree_loop_entries:
  "list_all gitEntry es \<Longrightarrow>
   \<exists>mode' name'.
     parseTree_loop (pre @ encodeTree es @ post) GetMode (length pre) (length pre + 6)
       mode name entries =
     parseTree_loop (pre @ encodeTree es @ post) GetMode
       (length pre + length (encodeTree es)) (length pre + length (encodeTree es) + 6)
       mode' name' (entries @ map decoded es)"
proof (induction es arbitrary: pre mode name entries)
  case Nil
  show ?case by (auto simp: encodeTree_def)
next
  case (Cons e es)
  then have g: "gitEntry e" and gs: "list_all gitEntry es" by simp_all
  let ?c = "pre @ encodeTree (e # es) @ post"
  have c1: "?c = pre @ encodeEntry e @ (encodeTree es @ post)"
    by (simp add: encodeTree_Cons)
  have c2: "?c = (pre @ encodeEntry e) @ encodeTree es @ post"
    by (simp add: encodeTree_Cons)
  have "parseTree_loop ?c GetMode (length pre) (length pre + 6) mode name entries =
        parseTree_loop ?c GetMode (length (pre @ encodeEntry e)) (length (pre @ encodeEntry e) + 6)
          (raw_mode e) (raw_name e) (entries @ [decoded e])"
    unfolding c1 using parseTree_loop_entry [OF g, of pre "encodeTree es @ post" mode name entries]
    by simp
  moreover from Cons.IH [OF gs, of "pre @ encodeEntry e" "raw_mode e" "raw_name e" "entries @ [decoded e]"]
  obtain mode' name' where
    "parseTree_loop ?c GetMode (length (pre @ encodeEntry e)) (length (pre @ encodeEntry e) + 6)
          (raw_mode e) (raw_name e) (entries @ [decoded e]) =
     parseTree_loop ?c GetMode (length (pre @ encodeEntry e) + length (encodeTree es))
          (length (pre @ encodeEntry e) + length (encodeTree es) + 6)
          mode' name' ((entries @ [decoded e]) @ map decoded es)"
    unfolding c2 by blast
  ultimately have "parseTree_loop ?c GetMode (length pre) (length pre + 6) mode name entries =
     parseTree_loop ?c GetMode (length (pre @ encodeEntry e) + length (encodeTree es))
          (length (pre @ encodeEntry e) + length (encodeTree es) + 6)
          mode' name' ((entries @ [decoded e]) @ map decoded es)"
    by simp
  then show ?case
    by (auto simp: encodeTree_Cons add.assoc)
qed

lemma parseTree_loop_end:
  "length content < stop \<Longrightarrow>
   parseTree_loop content item start stop mode name entries = Inr entries"
  by (subst parseTree_loop.simps) simp

lemma takeWhile_take_prefix:
  assumes "\<forall>b\<in>set x. P b"
  shows "min j (length x) \<le> length (takeWhile P (take j (x @ y)))"
proof -
  from assms have "\<forall>b\<in>set (take j x). P b"
    by (auto dest: in_set_takeD)
  then have "takeWhile P (take j x @ take (j - length x) y) =
             take j x @ takeWhile P (take (j - length x) y)"
    by (simp add: takeWhile_append2)
  then show ?thesis by simp
qed

lemma parseTree_loop_truncated:
  assumes g: "gitEntry e" and k: "k < length (encodeEntry e)" and k6: "k \<noteq> 6"
  shows "parseTree_loop (pre @ take k (encodeEntry e)) GetMode (length pre) (length pre + 6)
           mode name entries = Inr entries"
proof (cases "k < 6")
  case True
  then show ?thesis by (simp add: parseTree_loop_end k [THEN less_imp_le] min_def)
next
  case False
  with k6 have k7: "6 < k" by simp
  define m n h where "m = raw_mode e" and "n = raw_name e" and "h = raw_hash e"
  define c where "c = pre @ take k (encodeEntry e)"
  define s where "s = length pre"
  define w where "w = drop 6 (m @ [SPACE])"
  have enc: "encodeEntry e = m @ SPACE # n @ NUL # h"
    by (simp add: encodeEntry_def m_def n_def h_def)
  from g have lm: "length m = 5 \<or> length m = 6" and nul: "NUL \<notin> set n" and lh: "length h = 20"
    by (simp_all add: gitEntry_def m_def n_def h_def)
  have lc: "length c = s + k"
    using k by (simp add: c_def s_def min_def)
  have w: "w = [] \<or> w = [SPACE]"
    using lm by (auto simp: w_def)
  have lw: "length w = length m + 1 - 6"
    by (simp add: w_def)
  have "drop 6 (encodeEntry e) = drop 6 ((m @ [SPACE]) @ n @ NUL # h)"
    by (simp add: enc)
  also have "\<dots> = (w @ n) @ NUL # h"
    unfolding w_def using lm by (subst drop_append) auto
  finally have d6: "drop 6 (encodeEntry e) = (w @ n) @ NUL # h" .
  have "drop (s + 6) c = drop 6 (take k (encodeEntry e))"
    by (simp add: c_def s_def)
  also have "\<dots> = take (k - 6) (drop 6 (encodeEntry e))"
    by (simp add: drop_take)
  finally have dr: "drop (s + 6) c = take (k - 6) ((w @ n) @ NUL # h)"
    by (simp add: d6)
  have "\<forall>b\<in>set (w @ n). b \<noteq> NUL"
    using w nul SPACE_neq_NUL by auto
  then have "min (k - 6) (length (w @ n))
               \<le> length (takeWhile (\<lambda>b. b \<noteq> NUL) (take (k - 6) ((w @ n) @ NUL # h)))"
    by (rule takeWhile_take_prefix)
  then have tw: "min (k - 6) (length (w @ n))
               \<le> length (takeWhile (\<lambda>b. b \<noteq> NUL) (drop (s + 6) c))"
    by (simp only: dr)
  define j where
    "j = min (s + 6 + length (takeWhile (\<lambda>b. b \<noteq> NUL) (drop (s + 6) c))) (length c - 1)"
  have B: "scanName c (s + 6) = Inr j"
    unfolding j_def using k7 lc by (intro scanName_closed) simp
  have lek: "k < length m + length n + 22"
    using k by (simp add: enc lh)
  have bounds: "s + 6 \<le> length c" "s + 6 \<le> j" "j \<le> length c" "length c < j + 1 + 20"
    using k7 lc tw lw lm lek by (auto simp: j_def min_def split: if_splits)
  have "parseTree_loop c GetMode s (s + 6) mode name entries =
        parseTree_loop c GetName (s + 6) (s + 6) (TrimSpace (take 6 (drop s c))) name entries"
    using bounds by (subst parseTree_loop.simps) (simp add: slice_def)
  also have "\<dots> = parseTree_loop c GetHash (j + 1) (j + 1 + 20)
                     (TrimSpace (take 6 (drop s c)))
                     (TrimSpace (take (j - (s + 6)) (drop (s + 6) c))) entries"
    using bounds by (subst parseTree_loop.simps) (simp add: slice_def B)
  also have "\<dots> = Inr entries"
    using bounds by (intro parseTree_loop_end) simp
  finally show ?thesis by (simp only: c_def s_def)
qed

subsection \<open>What trimming leaves\<close>









subsection \<open>The header parser\<close>







subsection \<open>Whole bodies\<close>

lemma parseTree_git_body:
  assumes "list_all gitEntry es" "Content obj = encodeTree es"
  shows "parseTree obj = Inr (map decoded es)"
proof -
  from parseTree_loop_entries [OF assms(1), of "[]" "[]" "[]" "[]" "[]"]
  obtain mode' name' where
    "parseTree_loop (encodeTree es) GetMode 0 6 [] [] [] =
     parseTree_loop (encodeTree es) GetMode (length (encodeTree es)) (length (encodeTree es) + 6)
       mode' name' (map decoded es)"
    by auto
  also have "\<dots> = Inr (map decoded es)"
    by (rule parseTree_loop_end) simp
  finally show ?thesis by (simp add: parseTree_def assms(2))
qed

lemma parseTree_truncated_body:
  assumes "list_all gitEntry es" "gitEntry e" "k < length (encodeEntry e)" "k \<noteq> 6"
    "Content obj = encodeTree es @ take k (encodeEntry e)"
  shows "parseTree obj = Inr (map decoded es)"
proof -
  from parseTree_loop_entries [OF assms(1), of "[]" "take k (encodeEntry e)" "[]" "[]" "[]"]
  obtain mode' name' where
    "parseTree_loop (encodeTree es @ take k (encodeEntry e)) GetMode 0 6 [] [] [] =
     parseTree_loop (encodeTree es @ take k (encodeEntry e)) GetMode
       (length (encodeTree es)) (length (encodeTree es) + 6) mode' name' (map decoded es)"
    by auto
  also have "\<dots> = Inr (map decoded es)"
    using assms(2-4) by (rule parseTree_loop_truncated)
  finally show ?thesis by (simp add: parseTree_def assms(5))
qed

lemma gitEntry_valid: "gitEntry e \<Longrightarrow> validEntry e"
proof -
  assume g: "gitEntry e"
  then have "list_all plainByte (raw_mode e)" by (simp add: gitEntry_def)
  moreover have "\<not> plainByte SPACE" by (simp add: plainByte_def asciiSpace_def SPACE_def)
  ultimately have "SPACE \<notin> set (raw_mode e)" by (auto simp: list_all_iff)
  with g show ?thesis by (simp add: gitEntry_def validEntry_def)
qed

lemma reencode_decoded: "reencodeEntry (decoded e) = encodeEntry e"
  by (simp add: reencodeEntry_def decoded_def encodeEntry_def DecodeString_EncodeToString)

lemma reencodeTree_decoded: "reencodeTree (map decoded es) = encodeTree es"
  by (simp add: reencodeTree_def encodeTree_def reencode_decoded comp_def)

lemma gitEntries_examples: "list_all gitEntry [entryA, entryB]"
  by code_simp

subsection \<open>The commit decoder\<close>

lemma Split_nonempty: "Split s sep \<noteq> []"
  by (induction s) (auto split: list.splits)

lemma Split_line:
  "sep \<notin> set l \<Longrightarrow> Split (l @ sep # rest) sep = l # Split rest sep"
  by (induction l) (auto split: list.splits)

lemma Split_first: "\<exists>ls. Split s NEWLINE = firstLine s # ls"
  unfolding firstLine_def by (induction s) (auto split: list.splits)

lemma objectId_no_newline: "objectId p \<Longrightarrow> NEWLINE \<notin> set p"
proof -
  assume "objectId p"
  then have "\<forall>c\<in>set p. c \<in> set hextable" by (simp add: objectId_def list_all_iff)
  moreover have "NEWLINE \<notin> set hextable" by (simp add: hextable_def NEWLINE_def)
  ultimately show ?thesis by blast
qed

lemma parseCommit_lines_parent:
  assumes "length p = 40"
  shows "parseCommit_lines ((''parent '' @ p) # lines) parents =
         parseCommit_lines lines (parents @ [p])"
  using assms by (simp add: slice_def)

lemma parseCommit_lines_parents:
  "list_all objectId ps \<Longrightarrow>
   parseCommit_lines (Split (concat (map parentLine ps) @ rest) NEWLINE) parents =
   parseCommit_lines (Split rest NEWLINE) (parents @ ps)"
proof (induction ps arbitrary: parents)
  case Nil
  show ?case by simp
next
  case (Cons p ps)
  then have p: "objectId p" and ps: "list_all objectId ps" by simp_all
  from p have len: "length p = 40" by (simp add: objectId_def)
  from objectId_no_newline [OF p] have "NEWLINE \<notin> set (''parent '' @ p)"
    by (simp add: NEWLINE_def)
  then have "Split ((''parent '' @ p) @ NEWLINE # (concat (map parentLine ps) @ rest)) NEWLINE =
        (''parent '' @ p) # Split (concat (map parentLine ps) @ rest) NEWLINE"
    by (rule Split_line)
  then have "Split (concat (map parentLine (p # ps)) @ rest) NEWLINE =
        (''parent '' @ p) # Split (concat (map parentLine ps) @ rest) NEWLINE"
    by (simp add: parentLine_def)
  then have "parseCommit_lines (Split (concat (map parentLine (p # ps)) @ rest) NEWLINE) parents =
        parseCommit_lines ((''parent '' @ p) # Split (concat (map parentLine ps) @ rest) NEWLINE)
          parents"
    by (simp only:)
  also have "\<dots> = parseCommit_lines (Split (concat (map parentLine ps) @ rest) NEWLINE)
                     (parents @ [p])"
    using len by (rule parseCommit_lines_parent)
  also have "\<dots> = parseCommit_lines (Split rest NEWLINE) ((parents @ [p]) @ ps)"
    using ps by (rule Cons.IH)
  finally show ?case by simp
qed

lemma parseCommit_body_slices:
  assumes "length t = 40" and "Content obj = commitBody t ps rest"
  shows "slice (Content obj) 5 45 = Inr t"
    and "slice_from (Content obj) 46 = Inr (concat (map parentLine ps) @ rest)"
  using assms by (simp_all add: commitBody_def slice_def slice_from_def)

lemma parseCommit_parents_then:
  assumes "objectId t" and "list_all objectId ps" and "Content obj = commitBody t ps rest"
  shows "parseCommit obj =
         (case parseCommit_lines (Split rest NEWLINE) ps of
            Inl e \<Rightarrow> Inl e
          | Inr parents \<Rightarrow> Inr \<lparr>Tree = t, Parents = parents\<rparr>)"
proof -
  from assms(1) have "length t = 40" by (simp add: objectId_def)
  from parseCommit_body_slices [OF this assms(3)]
    parseCommit_lines_parents [OF assms(2), of rest "[]"]
  show ?thesis by (simp add: parseCommit_def)
qed

subsection \<open>The graph builder\<close>

lemma foldl_snoc_map: "foldl (\<lambda>acc x. acc @ [f x]) acc xs = acc @ map f xs"
  by (induction xs arbitrary: acc) simp_all

lemma appendEdges_objectEdges:
  "appendEdges obj edges = Inr edges' \<Longrightarrow> edges' = edges @ objectEdges obj"
  by (auto simp: appendEdges_def objectEdges_def commitEdges_def treeEdges_def foldl_snoc_map
      split: if_splits sum.splits)

lemma appendEdges_decodes:
  "appendEdges obj edges = Inr edges' \<Longrightarrow>
   (Type obj = ''commit'' \<longrightarrow> (\<exists>c. parseCommit obj = Inr c)) \<and>
   (Type obj = ''tree'' \<longrightarrow> (\<exists>entries. parseTree obj = Inr entries))"
  by (auto simp: appendEdges_def split: if_splits sum.splits)

lemma toJson_range_edges:
  "toJson_range objs nodes edges = Inr (nodes', edges') \<Longrightarrow>
   edges' = edges @ concat (map objectEdges objs) \<and>
   (\<forall>obj\<in>set objs.
      (Type obj = ''commit'' \<longrightarrow> (\<exists>c. parseCommit obj = Inr c)) \<and>
      (Type obj = ''tree'' \<longrightarrow> (\<exists>entries. parseTree obj = Inr entries)))"
proof (induction objs arbitrary: nodes edges)
  case Nil
  then show ?case by simp
next
  case (Cons obj objs)
  from Cons.prems obtain bytes objMap edges1 where
    a: "appendEdges obj edges = Inr edges1" and
    r: "toJson_range objs
          (nodes @ [\<lparr>node_name = Object.Name obj, node_type = Type obj, node_object = objMap\<rparr>])
          edges1 = Inr (nodes', edges')"
    by (auto split: sum.splits option.splits)
  from Cons.IH [OF r] appendEdges_objectEdges [OF a] appendEdges_decodes [OF a]
  show ?case by simp
qed

lemma toJson_range_fails:
  "obj \<in> set objs \<Longrightarrow> Object_toJson obj = Inl e \<Longrightarrow>
   \<exists>e'. toJson_range objs nodes edges = Inl e'"
proof (induction objs arbitrary: nodes edges)
  case Nil
  then show ?case by simp
next
  case (Cons x objs)
  show ?case
  proof (cases "x = obj")
    case True
    with Cons.prems show ?thesis by simp
  next
    case False
    with Cons.prems have "obj \<in> set objs" by simp
    from Cons.IH [OF this Cons.prems(2)] show ?thesis
      by (auto split: sum.splits option.splits)
  qed
qed

section \<open>C1: how the tree decoder finds the fields\<close>

text \<open>
  C1. Claim: for every valid tree body the tree decoder finds the mode by scanning to
  the next space and the name by scanning to the next zero byte, reads 20 hash bytes and
  hex-encodes them; it assumes no fixed 6-byte stride for the mode and its separator, so
  every valid body decodes to its (mode, name, target) sequence.

  \<^verbatim>\<open>parseTree\<close> does take a fixed window of 6 bytes for the mode. The valid body with
  the one entry of mode \<^verbatim>\<open>644\<close> and name \<^verbatim>\<open>ab.txt\<close> decodes to the mode
  \<^verbatim>\<open>644 ab\<close> and the name \<^verbatim>\<open>.txt\<close>.
\<close>

theorem parseTree_fixed_stride_counterexample:
  "validEntry entryShortMode \<and>
   Content treeShortMode = encodeTree [entryShortMode] \<and>
   parseTree treeShortMode =
     Inr [\<lparr>Mode = ''644 ab'', Name = ''.txt'', Hash = id1\<rparr>] \<and>
   parseTree treeShortMode \<noteq> Inr (map decoded [entryShortMode])"
  by code_simp

text \<open>
  C1, amended. For every tree body whose entries have a mode of 5 or 6 ASCII bytes that
  are not white space, a name without a zero byte that trimming leaves unchanged, and 20
  hash bytes, the body is valid and the tree decoder returns its (mode, name, target)
  sequence: the white-space trimming of the 6-byte window and of the name makes up for
  the separator being inside the one or the other.
\<close>

theorem parseTree_git_entries:
  assumes "list_all gitEntry es" and "Content obj = encodeTree es"
  shows "list_all validEntry es \<and> parseTree obj = Inr (map decoded es)"
proof
  from assms(1) show "list_all validEntry es"
    by (auto simp: list_all_iff gitEntry_valid)
  from assms show "parseTree obj = Inr (map decoded es)"
    by (rule parseTree_git_body)
qed

theorem parseTree_git_entries_witness:
  "list_all gitEntry [entryA, entryB] \<and>
   Content treeAB = encodeTree [entryA, entryB] \<and>
   parseTree treeAB =
     Inr [\<lparr>Mode = ''100644'', Name = ''a.txt'', Hash = id1\<rparr>,
          \<lparr>Mode = ''40000'', Name = ''b'', Hash = id2\<rparr>]"
proof -
  have c: "Content treeAB = encodeTree [entryA, entryB]"
    by (simp add: treeAB_def mkObject_def)
  have d: "map decoded [entryA, entryB] =
     [\<lparr>Mode = ''100644'', Name = ''a.txt'', Hash = id1\<rparr>,
      \<lparr>Mode = ''40000'', Name = ''b'', Hash = id2\<rparr>]"
    by code_simp
  from parseTree_git_entries [OF gitEntries_examples c] gitEntries_examples c d
  show ?thesis by simp
qed

section \<open>C2: truncated tree bodies\<close>

text \<open>
  C2. Claim: for every tree body truncated in the middle of an entry the tree decoder
  signals a TruncatedTree error; it never panics and never silently returns a short or
  empty entry list.

  \<^verbatim>\<open>parseTree\<close> has no error result. On the tree of two entries whose last hash byte
  is missing it returns the first entry alone.
\<close>

theorem parseTree_truncated_counterexample:
  "Content treeTruncated = encodeTree [entryA] @ take 27 (encodeEntry entryB) \<and>
   length (encodeEntry entryB) = 28 \<and>
   parseTree treeTruncated = Inr [\<lparr>Mode = ''100644'', Name = ''a.txt'', Hash = id1\<rparr>]"
  by code_simp

text \<open>
  C2, amended. For every tree body made of complete entries (with modes of 5 or 6 bytes,
  as in C1) followed by the first \<open>k\<close> bytes of one more entry, \<open>k\<close> other than 6, the
  tree decoder signals no error: it returns the complete entries and drops the partial
  one. (With exactly 6 bytes left the index expression of the name scan is out of range,
  see \<open>parseTree_truncated_at_6\<close> below.)
\<close>

theorem parseTree_truncated_silent:
  assumes "list_all gitEntry es" and "gitEntry e"
    and "k < length (encodeEntry e)" and "k \<noteq> 6"
    and "Content obj = encodeTree es @ take k (encodeEntry e)"
  shows "parseTree obj = Inr (map decoded es)"
  using assms by (rule parseTree_truncated_body)

theorem parseTree_truncated_silent_witness:
  "list_all gitEntry [entryA] \<and> gitEntry entryB \<and>
   27 < length (encodeEntry entryB) \<and> (27::nat) \<noteq> 6 \<and>
   Content treeTruncated = encodeTree [entryA] @ take 27 (encodeEntry entryB) \<and>
   parseTree treeTruncated = Inr (map decoded [entryA])"
proof -
  have a: "list_all gitEntry [entryA]" and b: "gitEntry entryB"
    using gitEntries_examples by simp_all
  have k: "27 < length (encodeEntry entryB)" by code_simp
  have k6: "(27::nat) \<noteq> 6" by simp
  have c: "Content treeTruncated = encodeTree [entryA] @ take 27 (encodeEntry entryB)"
    by (simp add: treeTruncated_def mkObject_def)
  from parseTree_truncated_silent [OF a b k k6 c] a b k c show ?thesis by simp
qed

lemma parseTree_truncated_at_6:
  assumes "list_all gitEntry es" and "gitEntry e"
    and "Content obj = encodeTree es @ take 6 (encodeEntry e)"
  shows "parseTree obj = Inl IndexOutOfRange"
proof -
  define c where "c = encodeTree es @ take 6 (encodeEntry e)"
  from assms(2) have "6 \<le> length (encodeEntry e)"
    by (auto simp: gitEntry_def length_encodeEntry)
  then have lc: "length c = length (encodeTree es) + 6"
    by (simp add: c_def)
  from parseTree_loop_entries [OF assms(1), of "[]" "take 6 (encodeEntry e)" "[]" "[]" "[]"]
  obtain mode' name' where
    "parseTree_loop c GetMode 0 6 [] [] [] =
     parseTree_loop c GetMode (length (encodeTree es)) (length (encodeTree es) + 6)
       mode' name' (map decoded es)"
    by (auto simp: c_def)
  also have "\<dots> = parseTree_loop c GetName (length (encodeTree es) + 6)
       (length (encodeTree es) + 6)
       (TrimSpace (take 6 (drop (length (encodeTree es)) c))) name' (map decoded es)"
    using lc by (subst parseTree_loop.simps) (simp add: slice_def)
  also have "\<dots> = Inl IndexOutOfRange"
    using lc by (subst parseTree_loop.simps) (simp add: scanName.simps)
  finally show ?thesis by (simp add: parseTree_def assms(3) c_def)
qed

section \<open>C7: decoding a tree and encoding it again\<close>

text \<open>
  C7. Claim: for all valid tree bodies, decoding the body and re-encoding each entry as
  mode, space, name, zero byte and the 20 raw hash bytes gives back the body.

  The decoder trims the name. The valid body with the one entry of mode \<^verbatim>\<open>100644\<close>
  and a name of a space followed by \<^verbatim>\<open>a\<close> decodes to the name \<^verbatim>\<open>a\<close>, and the
  re-encoded body is one byte shorter.
\<close>

theorem parseTree_roundtrip_counterexample:
  "validEntry entrySpaceName \<and>
   Content treeSpaceName = encodeTree [entrySpaceName] \<and>
   parseTree treeSpaceName = Inr [\<lparr>Mode = ''100644'', Name = ''a'', Hash = id1\<rparr>] \<and>
   reencodeTree [\<lparr>Mode = ''100644'', Name = ''a'', Hash = id1\<rparr>] \<noteq> Content treeSpaceName"
  by code_simp

text \<open>
  C7, amended. For all tree bodies whose entries have a mode of 5 or 6 ASCII bytes that
  are not white space and a name that trimming leaves unchanged, decoding the body and
  re-encoding each entry gives back the body.
\<close>

theorem parseTree_roundtrip:
  assumes "list_all gitEntry es" and "Content obj = encodeTree es"
  shows "\<exists>entries. parseTree obj = Inr entries \<and> reencodeTree entries = Content obj"
  using parseTree_git_body [OF assms] assms(2) by (simp add: reencodeTree_decoded)

theorem parseTree_roundtrip_witness:
  "list_all gitEntry [entryA, entryB] \<and>
   Content treeAB = encodeTree [entryA, entryB] \<and>
   (\<exists>entries. parseTree treeAB = Inr entries \<and> reencodeTree entries = Content treeAB)"
proof -
  have c: "Content treeAB = encodeTree [entryA, entryB]"
    by (simp add: treeAB_def mkObject_def)
  from parseTree_roundtrip [OF gitEntries_examples c] gitEntries_examples c
  show ?thesis by simp
qed

section \<open>C10: the tree decoder trims the mode and the name\<close>



section \<open>C4: headers without a space or a zero byte\<close>



section \<open>C5: commits and their parents\<close>

text \<open>
  C5. Claim: for every valid commit body with N parents (N at least 0) the commit
  decoder returns exactly one tree identifier, taken from the first line, and exactly the
  N parent identifiers in declaration order, accepting the consecutive \<^verbatim>\<open>parent\<close> lines
  and stopping at the first line that is not one.

  A valid body is the tree line, N parent lines and a rest whose first line is not a
  parent line; in git that is the \<^verbatim>\<open>author\<close> line, which has at least 6 bytes.
\<close>

theorem parseCommit_valid_body:
  assumes "objectId t" and "list_all objectId ps"
    and "6 \<le> length (firstLine rest)" and "take 6 (firstLine rest) \<noteq> ''parent''"
    and "Content obj = commitBody t ps rest"
  shows "parseCommit obj = Inr \<lparr>Tree = t, Parents = ps\<rparr>"
proof -
  from Split_first [of rest] obtain ls where "Split rest NEWLINE = firstLine rest # ls" ..
  with assms(3,4) have "parseCommit_lines (Split rest NEWLINE) ps = Inr ps"
    by (simp add: slice_def)
  with parseCommit_parents_then [OF assms(1,2,5)] show ?thesis by simp
qed

theorem parseCommit_valid_body_witness:
  "objectId id3 \<and> list_all objectId [idP1, idP2] \<and>
   6 \<le> length (firstLine authorRest) \<and> take 6 (firstLine authorRest) \<noteq> ''parent'' \<and>
   Content commitTwoParents = commitBody id3 [idP1, idP2] authorRest \<and>
   parseCommit commitTwoParents = Inr \<lparr>Tree = id3, Parents = [idP1, idP2]\<rparr>"
proof -
  have t: "objectId id3" by code_simp
  have ps: "list_all objectId [idP1, idP2]" by code_simp
  have l: "6 \<le> length (firstLine authorRest)" by code_simp
  have n: "take 6 (firstLine authorRest) \<noteq> ''parent''" by code_simp
  have c: "Content commitTwoParents = commitBody id3 [idP1, idP2] authorRest"
    by (simp add: commitTwoParents_def mkObject_def)
  from parseCommit_valid_body [OF t ps l n c] t ps l n c show ?thesis by blast
qed

section \<open>C6: short lines in a commit\<close>

text \<open>
  C6. Claim: where the line at the position of the parent check is shorter than the
  \<^verbatim>\<open>parent\<close> token or than \<^verbatim>\<open>parent <40-hex>\<close>, the commit decoder checks the
  line's length first and does not index it unconditionally; such input yields an error
  value (MalformedCommit), never an out-of-bounds access.

  \<^verbatim>\<open>parseCommit\<close> slices the line as \<^verbatim>\<open>line[:6]\<close> with no check of its length. On
  the body whose line after the tree line is \<^verbatim>\<open>abc\<close> the slice expression is out of
  range and the run-time panics.
\<close>

theorem parseCommit_short_line_counterexample:
  "Content shortCommit = commitBody id3 [] ''abc'' \<and>
   length (firstLine ''abc'') = 3 \<and>
   parseCommit shortCommit = Inl SliceBoundsOutOfRange"
  by code_simp

text \<open>
  C6, amended. For every commit body of a tree line and parent lines in which the next
  line is shorter than 6 bytes, or starts with \<^verbatim>\<open>parent\<close> and is shorter than 47
  bytes, the commit decoder slices the line without checking its length and the decode
  ends in the run-time panic of that slice expression; no commit is returned.
\<close>

theorem parseCommit_short_line_panics:
  assumes "objectId t" and "list_all objectId ps"
    and "length (firstLine rest) < 6 \<or>
         (take 6 (firstLine rest) = ''parent'' \<and> length (firstLine rest) < 47)"
    and "Content obj = commitBody t ps rest"
  shows "parseCommit obj = Inl SliceBoundsOutOfRange"
proof -
  from Split_first [of rest] obtain ls where "Split rest NEWLINE = firstLine rest # ls" ..
  with assms(3) have "parseCommit_lines (Split rest NEWLINE) ps = Inl SliceBoundsOutOfRange"
    by (auto simp: slice_def)
  with parseCommit_parents_then [OF assms(1,2,4)] show ?thesis by simp
qed

theorem parseCommit_short_line_panics_witness:
  "objectId id3 \<and> list_all objectId [idP1] \<and>
   take 6 (firstLine ''parent 0123'') = ''parent'' \<and> length (firstLine ''parent 0123'') < 47 \<and>
   Content commitShortParent = commitBody id3 [idP1] ''parent 0123'' \<and>
   parseCommit commitShortParent = Inl SliceBoundsOutOfRange"
proof -
  have t: "objectId id3" by code_simp
  have ps: "list_all objectId [idP1]" by code_simp
  have l: "take 6 (firstLine ''parent 0123'') = ''parent''" by code_simp
  have n: "length (firstLine ''parent 0123'') < 47" by code_simp
  have c: "Content commitShortParent = commitBody id3 [idP1] ''parent 0123''"
    by (simp add: commitShortParent_def mkObject_def)
  from l n have d: "length (firstLine ''parent 0123'') < 6 \<or>
      (take 6 (firstLine ''parent 0123'') = ''parent'' \<and> length (firstLine ''parent 0123'') < 47)"
    by blast
  from parseCommit_short_line_panics [OF t ps d c] t ps l n c show ?thesis by blast
qed

section \<open>C3: a decode failure and the rest of the pass\<close>

text \<open>
  C3. Claim: a decode failure of any single object never aborts the graph-building pass;
  the failure is recorded as an error value on that object's node and the pass always
  completes and returns a result.

  \<^verbatim>\<open>Repo.toJson\<close> has no error value for a node. With a blob and a tree whose content
  is cut after six bytes, the panic of the tree decoder ends the pass and the blob's node
  is lost with it.
\<close>

theorem toJson_decode_failure_counterexample:
  "Object_toJson blobObject = Inr (BlobJson blobObject) \<and>
   parseTree treeSixBytes = Inl IndexOutOfRange \<and>
   Repo_toJson brokenTreeRepo = Inl IndexOutOfRange"
  by code_simp

text \<open>
  C3, amended. For every set of loaded objects, a decode failure of any single commit or
  tree object aborts the whole graph-building pass: the pass returns no nodes and no
  edges, whatever the other objects are.
\<close>

theorem toJson_aborts_on_decode_failure:
  assumes "obj \<in> set (objects r)"
    and "(Type obj = ''commit'' \<and> parseCommit obj = Inl e) \<or>
         (Type obj = ''tree'' \<and> parseTree obj = Inl e)"
  shows "\<exists>e'. Repo_toJson r = Inl e'"
proof -
  from assms(2) have "Object_toJson obj = Inl e"
    by (auto simp: Object_toJson_def)
  with assms(1) show ?thesis
    unfolding Repo_toJson_def by (rule toJson_range_fails)
qed

theorem toJson_aborts_on_decode_failure_witness:
  "shortCommit \<in> set (objects brokenCommitRepo) \<and>
   Type shortCommit = ''commit'' \<and> parseCommit shortCommit = Inl SliceBoundsOutOfRange \<and>
   (\<exists>e'. Repo_toJson brokenCommitRepo = Inl e')"
proof -
  have m: "shortCommit \<in> set (objects brokenCommitRepo)"
    by (simp add: brokenCommitRepo_def)
  have t: "Type shortCommit = ''commit''"
    by (simp add: shortCommit_def mkObject_def)
  have p: "parseCommit shortCommit = Inl SliceBoundsOutOfRange" by code_simp
  from t p have "(Type shortCommit = ''commit'' \<and> parseCommit shortCommit = Inl SliceBoundsOutOfRange) \<or>
      (Type shortCommit = ''tree'' \<and> parseTree shortCommit = Inl SliceBoundsOutOfRange)"
    by blast
  from toJson_aborts_on_decode_failure [OF m this] m t p show ?thesis by blast
qed

section \<open>C8: the order of the edges\<close>

text \<open>
  C8. Claim: for every commit object with tree T and parents P1 to PN the graph builder
  emits exactly the edges from the commit to P1, ..., PN and then to T, in that order; for
  every tree object it emits one edge to each entry's target, in entry order.

  Whenever \<^verbatim>\<open>Repo.toJson\<close> returns a graph, its edges are the edges of the objects one
  after the other in the order the objects were visited, and the edges of each commit and
  of each tree are those of what its decoder returns.
\<close>

theorem toJson_edges_in_order:
  assumes "Repo_toJson r = Inr (nodes, edges)"
  shows "edges = concat (map objectEdges (objects r)) \<and>
         (\<forall>obj\<in>set (objects r).
            (Type obj = ''commit'' \<longrightarrow>
               (\<exists>c. parseCommit obj = Inr c \<and>
                    objectEdges obj =
                      map (\<lambda>p. \<lparr>Src = Object.Name obj, Dest = p\<rparr>) (Parents c)
                      @ [\<lparr>Src = Object.Name obj, Dest = Tree c\<rparr>])) \<and>
            (Type obj = ''tree'' \<longrightarrow>
               (\<exists>entries. parseTree obj = Inr entries \<and>
                    objectEdges obj =
                      map (\<lambda>entry. \<lparr>Src = Object.Name obj, Dest = Hash entry\<rparr>) entries)))"
proof -
  from assms have "toJson_range (objects r) [] [] = Inr (nodes, edges)"
    by (simp add: Repo_toJson_def)
  from toJson_range_edges [OF this] show ?thesis
    by (auto simp: objectEdges_def commitEdges_def treeEdges_def)
qed

theorem toJson_edges_in_order_witness:
  "\<exists>nodes. Repo_toJson exampleRepo = Inr (nodes, exampleEdges) \<and>
     exampleEdges = concat (map objectEdges (objects exampleRepo))"
proof -
  have "map_sum id snd (Repo_toJson exampleRepo) = Inr exampleEdges" by code_simp
  then obtain nodes where r: "Repo_toJson exampleRepo = Inr (nodes, exampleEdges)"
    by (cases "Repo_toJson exampleRepo") auto
  from toJson_edges_in_order [OF r] r show ?thesis by blast
qed

section \<open>Unrecognised object types in the graph builder\<close>

text \<open>
  C9. Claim: the graph builder emits exactly one node for every loaded object, whatever
  its kind, and objects of kind blob or of an unrecognised kind contribute no edge; an
  unrecognised header type is not an error. In \<^verbatim>\<open>Repo.toJson\<close> an object of an
  unrecognised type (here an annotated tag) ends the pass: \<^verbatim>\<open>Object.toJson\<close> returns
  no bytes for it and \<^verbatim>\<open>json.Unmarshal\<close> rejects the empty input, on which the
  source calls \<^verbatim>\<open>log.Fatal\<close>. The sibling \<^verbatim>\<open>Repo.toSQLite\<close> writes the object's
  row and no edge.
\<close>

theorem toJson_unrecognised_type_fatal:
  "Repo_toJson \<lparr>location = ''repo'', objects = [tagObject]\<rparr> = Inl FatalJsonError \<and>
   Repo_toSQLite \<lparr>location = ''repo'', objects = [tagObject]\<rparr>
     = Inr ([(id3, ''tag'', EmptyBytes)], [])"
  by (simp add: Repo_toJson_def Repo_toSQLite_def tagObject_def mkObject_def
      Object_toJson_def Unmarshal_def appendEdges_def)

end
